theory Spec2Isabelle
  imports Main "HOL-Library.Multiset"
begin

section \<open>Data model\<close>

text \<open>
  \<^verbatim>\<open>TimePoint\<close> is \<^verbatim>\<open>std::chrono::time_point<std::chrono::steady_clock>\<close>, a signed
  64-bit count of nanoseconds, and \<^verbatim>\<open>Duration\<close> is \<^verbatim>\<open>std::chrono::milliseconds\<close>,
  a signed 64-bit count of milliseconds. Both are modelled by the integer they hold. The
  reading of \<^verbatim>\<open>Clock::now()\<close> is an argument \<open>now\<close> of every operation that reads the
  clock.
\<close>

type_synonym TimePoint = int
type_synonym Duration = int

text \<open>
  The value a signed 64-bit computation holds for the exact result \<open>x\<close>: the compiled
  arithmetic of \<^verbatim>\<open>std::chrono\<close> wraps around in two's complement.
\<close>

definition wrap64 :: "int \<Rightarrow> int" where
  "wrap64 x = (x + 2 ^ 63) mod 2 ^ 64 - 2 ^ 63"

text \<open>
  \<^verbatim>\<open>now + fixed_duration\<close>, the \<^verbatim>\<open>operator+\<close> of a time point and a duration: the
  milliseconds are converted to the nanoseconds of the time point (times 1000000) and
  added, both steps in 64 bits.
\<close>

definition time_point_plus :: "TimePoint \<Rightarrow> Duration \<Rightarrow> TimePoint" where
  "time_point_plus now duration = wrap64 (now + wrap64 (duration * 1000000))"

text \<open>\<^verbatim>\<open>struct TimedData { T data; TimePoint insertion; TimePoint expiration; }\<close>\<close>

record 'a TimedData =
  data :: 'a
  insertion :: TimePoint
  expiration :: TimePoint

subsection \<open>The priority queue of the standard library\<close>

text \<open>
  \<^verbatim>\<open>std::priority_queue<TimedData, std::vector<TimedData>, std::greater<>>\<close> with
  \<^verbatim>\<open>operator>\<close> comparing \<^verbatim>\<open>expiration\<close> only: \<^verbatim>\<open>top()\<close> is an element of
  least expiration. The queue is library code; it is modelled by the list of its elements,
  \<^verbatim>\<open>push\<close> adding one element, \<^verbatim>\<open>top\<close> selecting an element of least expiration and
  \<^verbatim>\<open>pop\<close> removing that element. Among elements of equal expiration the standard does not
  say which one is on top; the model takes the one pushed first. The theorems below are
  stated through multisets and sortedness, so they do not depend on that choice.
\<close>

type_synonym 'a priority_queue = "'a TimedData list"

definition pq_empty :: "'a priority_queue \<Rightarrow> bool" where
  "pq_empty q = (q = [])"

definition pq_size :: "'a priority_queue \<Rightarrow> nat" where
  "pq_size q = length q"

definition pq_top :: "'a priority_queue \<Rightarrow> 'a TimedData" where
  "pq_top q = arg_min_list expiration q"

definition pq_pop :: "'a priority_queue \<Rightarrow> 'a priority_queue" where
  "pq_pop q = remove1 (pq_top q) q"

definition pq_push :: "'a TimedData \<Rightarrow> 'a priority_queue \<Rightarrow> 'a priority_queue" where
  "pq_push e q = q @ [e]"

subsection \<open>The container\<close>

text \<open>
  The members \<^verbatim>\<open>pq\<close>, \<^verbatim>\<open>insertion_order\<close> (a \<^verbatim>\<open>std::deque\<close>: front is the head of
  the list, back its last element) and \<^verbatim>\<open>fixed_duration\<close>. The mutex, the condition
  variable, the cleanup thread and its stop flag serialise the operations and are not part
  of the sequential state.
\<close>

record 'a ExpiringDataContainer =
  pq :: "'a priority_queue"
  insertion_order :: "'a TimedData list"
  fixed_duration :: Duration

text \<open>The constructor: both structures empty, the duration stored.\<close>

definition construct :: "Duration \<Rightarrow> 'a ExpiringDataContainer" where
  "construct duration = \<lparr>pq = [], insertion_order = [], fixed_duration = duration\<rparr>"

text \<open>\<^verbatim>\<open>throw std::runtime_error("No elements in the container")\<close>\<close>

datatype error = EmptyContainer

section \<open>Operations\<close>

text \<open>
  \<^verbatim>\<open>insert\<close>: \<open>now\<close> is the clock reading taken in the first line, before the lock
  is taken; the entry is pushed on the queue and appended to the deque.
\<close>

definition insert_data :: "TimePoint \<Rightarrow> 'a \<Rightarrow> 'a ExpiringDataContainer \<Rightarrow> 'a ExpiringDataContainer" where
  "insert_data now v s =
     (let expiration_time = time_point_plus now (fixed_duration s);
          timed_data = \<lparr>data = v, insertion = now, expiration = expiration_time\<rparr>
      in s\<lparr>pq := pq_push timed_data (pq s),
           insertion_order := insertion_order s @ [timed_data]\<rparr>)"

text \<open>The two loops of \<^verbatim>\<open>remove_expired\<close>.\<close>

function remove_expired_pq :: "TimePoint \<Rightarrow> 'a priority_queue \<Rightarrow> 'a priority_queue" where
  "remove_expired_pq now q =
     (if \<not> pq_empty q \<and> expiration (pq_top q) \<le> now
      then remove_expired_pq now (pq_pop q) else q)"
  by pat_completeness auto
termination
  by (relation "measure (\<lambda>(now, q). length q)")
     (auto simp: pq_empty_def pq_pop_def pq_top_def length_remove1 arg_min_list_in
           intro: Suc_pred' length_pos_if_in_set)

fun remove_expired_deque :: "TimePoint \<Rightarrow> 'a TimedData list \<Rightarrow> 'a TimedData list" where
  "remove_expired_deque now [] = []"
| "remove_expired_deque now (front # rest) =
     (if expiration front \<le> now then remove_expired_deque now rest else front # rest)"

definition remove_expired :: "TimePoint \<Rightarrow> 'a ExpiringDataContainer \<Rightarrow> 'a ExpiringDataContainer" where
  "remove_expired now s =
     s\<lparr>pq := remove_expired_pq now (pq s),
       insertion_order := remove_expired_deque now (insertion_order s)\<rparr>"

text \<open>
  The loop of \<^verbatim>\<open>get_valid_data\<close> over the copy \<^verbatim>\<open>temp_pq\<close>, with the vector
  \<^verbatim>\<open>valid_data\<close> built so far.
\<close>

function drain_valid :: "'a priority_queue \<Rightarrow> 'a list \<Rightarrow> 'a list" where
  "drain_valid temp_pq valid_data =
     (if \<not> pq_empty temp_pq
      then drain_valid (pq_pop temp_pq) (valid_data @ [data (pq_top temp_pq)])
      else valid_data)"
  by pat_completeness auto
termination
  by (relation "measure (\<lambda>(q, acc). length q)")
     (auto simp: pq_empty_def pq_pop_def pq_top_def length_remove1 arg_min_list_in
           intro: Suc_pred' length_pos_if_in_set)

definition get_valid_data :: "TimePoint \<Rightarrow> 'a ExpiringDataContainer \<Rightarrow> 'a list \<times> 'a ExpiringDataContainer" where
  "get_valid_data now s =
     (let s' = remove_expired now s in (drain_valid (pq s') [], s'))"

text \<open>
  The loop of \<^verbatim>\<open>is_less_than_all\<close>. The method is \<^verbatim>\<open>const\<close>: it reads no clock and
  calls no \<^verbatim>\<open>remove_expired\<close>.
\<close>

function scan_less_than_all :: "TimePoint \<Rightarrow> 'a priority_queue \<Rightarrow> bool" where
  "scan_less_than_all time temp_pq =
     (if \<not> pq_empty temp_pq
      then (if insertion (pq_top temp_pq) \<le> time then False
            else scan_less_than_all time (pq_pop temp_pq))
      else True)"
  by pat_completeness auto
termination
  by (relation "measure (\<lambda>(t, q). length q)")
     (auto simp: pq_empty_def pq_pop_def pq_top_def length_remove1 arg_min_list_in
           intro: Suc_pred' length_pos_if_in_set)

definition is_less_than_all :: "TimePoint \<Rightarrow> 'a ExpiringDataContainer \<Rightarrow> bool" where
  "is_less_than_all time s = scan_less_than_all time (pq s)"

text \<open>The loop of \<^verbatim>\<open>get_data_exceeding\<close>.\<close>

function drain_exceeding :: "TimePoint \<Rightarrow> 'a priority_queue \<Rightarrow> 'a list \<Rightarrow> 'a list" where
  "drain_exceeding time temp_pq exceeding_data =
     (if \<not> pq_empty temp_pq
      then drain_exceeding time (pq_pop temp_pq)
             (if insertion (pq_top temp_pq) > time
              then exceeding_data @ [data (pq_top temp_pq)] else exceeding_data)
      else exceeding_data)"
  by pat_completeness auto
termination
  by (relation "measure (\<lambda>(t, q, acc). length q)")
     (auto simp: pq_empty_def pq_pop_def pq_top_def length_remove1 arg_min_list_in
           intro: Suc_pred' length_pos_if_in_set)

definition get_data_exceeding ::
  "TimePoint \<Rightarrow> TimePoint \<Rightarrow> 'a ExpiringDataContainer \<Rightarrow> 'a list \<times> 'a ExpiringDataContainer" where
  "get_data_exceeding now time s =
     (let s' = remove_expired now s in (drain_exceeding time (pq s') [], s'))"

text \<open>\<^verbatim>\<open>size\<close> and \<^verbatim>\<open>get_most_recent\<close> are \<^verbatim>\<open>const\<close> and read no clock.\<close>

definition size_container :: "'a ExpiringDataContainer \<Rightarrow> nat" where
  "size_container s = pq_size (pq s)"

definition get_most_recent :: "'a ExpiringDataContainer \<Rightarrow> error + 'a" where
  "get_most_recent s =
     (if insertion_order s = [] then Inl EmptyContainer
      else Inr (data (last (insertion_order s))))"

section \<open>Sequential runs and the notions of the specification\<close>

text \<open>
  The order in which a loop of the form \<^verbatim>\<open>while (!temp_pq.empty()) { ... temp_pq.top() ...;
  temp_pq.pop(); }\<close> visits the entries of the copy. It is used to state what the three
  draining loops compute.
\<close>

function pq_drain :: "'a priority_queue \<Rightarrow> 'a TimedData list" where
  "pq_drain q = (if \<not> pq_empty q then pq_top q # pq_drain (pq_pop q) else [])"
  by pat_completeness auto
termination
  by (relation "measure length")
     (auto simp: pq_empty_def pq_pop_def pq_top_def length_remove1 arg_min_list_in
           intro: Suc_pred' length_pos_if_in_set)

text \<open>
  The specification's live entries at time \<open>now\<close>: those of the expiration structure
  with \<open>expiration > now\<close>; the others are expired.
\<close>

definition live_entries :: "TimePoint \<Rightarrow> 'a ExpiringDataContainer \<Rightarrow> 'a TimedData list" where
  "live_entries now s = filter (\<lambda>e. now < expiration e) (pq s)"

definition expired_entries :: "TimePoint \<Rightarrow> 'a ExpiringDataContainer \<Rightarrow> 'a TimedData list" where
  "expired_entries now s = filter (\<lambda>e. expiration e \<le> now) (pq s)"

text \<open>
  What the specification says \<^verbatim>\<open>is_less_than_all(time)\<close> returns when called at
  \<open>now\<close>: whether every live entry has \<open>insertion > time\<close>.
\<close>

definition spec_is_less_than_all :: "TimePoint \<Rightarrow> TimePoint \<Rightarrow> 'a ExpiringDataContainer \<Rightarrow> bool" where
  "spec_is_less_than_all now time s = list_all (\<lambda>e. time < insertion e) (live_entries now s)"

text \<open>
  What the specification says of the expiration of an entry inserted at \<open>now\<close>:
  \<open>now + fixed_ttl\<close>, the exact sum in nanoseconds. The computation of \<^verbatim>\<open>insert\<close>
  yields it when neither the conversion of the duration nor the sum leaves the 64-bit
  range.
\<close>

definition spec_expiration :: "TimePoint \<Rightarrow> Duration \<Rightarrow> TimePoint" where
  "spec_expiration now duration = now + duration * 1000000"

definition in_range64 :: "int \<Rightarrow> bool" where
  "in_range64 x \<longleftrightarrow> - (2 ^ 63) \<le> x \<and> x < 2 ^ 63"

definition no_overflow :: "Duration \<Rightarrow> TimePoint \<Rightarrow> bool" where
  "no_overflow duration now \<longleftrightarrow>
     in_range64 (duration * 1000000) \<and> in_range64 (now + duration * 1000000)"


text \<open>
  The calls that change the state, each with the clock reading it takes: \<^verbatim>\<open>insert\<close>,
  one round of the cleanup thread (\<^verbatim>\<open>remove_expired(Clock::now())\<close>) and the two
  queries that evict. A run executes a list of timed calls in the order in which they take
  the lock. The evicting calls read the clock under the lock; \<^verbatim>\<open>insert\<close> reads it
  before, so two producers can take the lock in the order opposite to their readings. The
  readings are in the order of the lock when the times of the list are sorted.
\<close>

datatype 'a call = Insert 'a | Cleanup | GetValidData | GetDataExceeding TimePoint

fun step :: "TimePoint \<Rightarrow> 'a call \<Rightarrow> 'a ExpiringDataContainer \<Rightarrow> 'a ExpiringDataContainer" where
  "step now (Insert v) s = insert_data now v s"
| "step now Cleanup s = remove_expired now s"
| "step now GetValidData s = snd (get_valid_data now s)"
| "step now (GetDataExceeding time) s = snd (get_data_exceeding now time s)"

fun run :: "'a ExpiringDataContainer \<Rightarrow> (TimePoint \<times> 'a call) list \<Rightarrow> 'a ExpiringDataContainer" where
  "run s [] = s"
| "run s ((now, c) # cs) = run (step now c s) cs"

text \<open>
  The invariant of the specification: both structures hold the same entries, and the deque
  is sorted by insertion time.
\<close>

definition invariant :: "'a ExpiringDataContainer \<Rightarrow> bool" where
  "invariant s \<longleftrightarrow>
     mset (pq s) = mset (insertion_order s) \<and> sorted (map insertion (insertion_order s))"

text \<open>The clock readings of the inserts of a run.\<close>

fun insert_times :: "(TimePoint \<times> 'a call) list \<Rightarrow> TimePoint list" where
  "insert_times [] = []"
| "insert_times ((now, c) # cs) =
     (case c of Insert v \<Rightarrow> now # insert_times cs | _ \<Rightarrow> insert_times cs)"

text \<open>
  Three properties of the states of a run. The first holds along every run: the queue
  holds no entry that the deque has lost. The second needs the readings of the inserts in
  the order of the lock: the deque is sorted by insertion time, no entry being inserted
  after the reading \<open>clock\<close>. The third needs moreover that no insert overflows: every
  entry expires exactly \<^verbatim>\<open>fixed_duration\<close> after its insertion, and the invariant
  holds.
\<close>

definition contained :: "'a ExpiringDataContainer \<Rightarrow> bool" where
  "contained s \<longleftrightarrow> mset (pq s) \<subseteq># mset (insertion_order s)"

definition ordered :: "TimePoint \<Rightarrow> 'a ExpiringDataContainer \<Rightarrow> bool" where
  "ordered clock s \<longleftrightarrow>
     sorted (map insertion (insertion_order s)) \<and>
     list_all (\<lambda>e. insertion e \<le> clock) (insertion_order s)"

definition consistent :: "TimePoint \<Rightarrow> 'a ExpiringDataContainer \<Rightarrow> bool" where
  "consistent clock s \<longleftrightarrow>
     invariant s \<and>
     list_all (\<lambda>e. insertion e \<le> clock \<and>
                   expiration e = spec_expiration (insertion e) (fixed_duration s))
       (insertion_order s)"

section \<open>The priority queue and the loops\<close>

declare remove_expired_pq.simps [simp del] drain_valid.simps [simp del]
  scan_less_than_all.simps [simp del] drain_exceeding.simps [simp del] pq_drain.simps [simp del]

lemma pq_drain_Nil [simp]: "pq_drain [] = []"
  by (subst pq_drain.simps) (simp add: pq_empty_def)

lemma drain_valid_Nil [simp]: "drain_valid [] acc = acc"
  by (subst drain_valid.simps) (simp add: pq_empty_def)

lemma drain_exceeding_Nil [simp]: "drain_exceeding t [] acc = acc"
  by (subst drain_exceeding.simps) (simp add: pq_empty_def)

lemma scan_less_than_all_Nil [simp]: "scan_less_than_all t []"
  by (subst scan_less_than_all.simps) (simp add: pq_empty_def)

lemma remove_expired_pq_Nil [simp]: "remove_expired_pq now [] = []"
  by (subst remove_expired_pq.simps) (simp add: pq_empty_def)

lemma pq_top_in: "q \<noteq> [] \<Longrightarrow> pq_top q \<in> set q"
  by (simp add: pq_top_def arg_min_list_in)

lemma pq_top_least: "e \<in> set q \<Longrightarrow> expiration (pq_top q) \<le> expiration e"
proof -
  assume e: "e \<in> set q"
  then have "q \<noteq> []" by auto
  then have "expiration (pq_top q) = Min (expiration ` set q)"
    unfolding pq_top_def by (rule f_arg_min_list_f)
  also have "\<dots> \<le> expiration e" using e by simp
  finally show ?thesis .
qed

lemma mset_pq_pop: "q \<noteq> [] \<Longrightarrow> add_mset (pq_top q) (mset (pq_pop q)) = mset q"
  using pq_top_in [of q] by (simp add: pq_pop_def)

lemma set_pq_pop: "q \<noteq> [] \<Longrightarrow> set q = insert (pq_top q) (set (pq_pop q))"
  using mset_pq_pop [of q] by (metis set_mset_add_mset_insert set_mset_mset)

lemma mset_pq_drain: "mset (pq_drain q) = mset q"
proof (induction q rule: pq_drain.induct)
  case (1 q)
  show ?case
  proof (cases "q = []")
    case True
    then show ?thesis by (simp add: pq_empty_def)
  next
    case False
    with 1 have "mset (pq_drain (pq_pop q)) = mset (pq_pop q)" by (simp add: pq_empty_def)
    with False show ?thesis
      by (subst pq_drain.simps) (simp add: pq_empty_def mset_pq_pop)
  qed
qed

lemma set_pq_drain: "set (pq_drain q) = set q"
  using mset_pq_drain [of q] by (metis set_mset_mset)


lemma drain_valid_eq: "drain_valid q acc = acc @ map data (pq_drain q)"
proof (induction q acc rule: drain_valid.induct)
  case (1 q acc)
  show ?case
  proof (cases "q = []")
    case True
    then show ?thesis by (simp add: pq_empty_def)
  next
    case False
    with 1 show ?thesis
      by (subst drain_valid.simps, subst pq_drain.simps) (simp add: pq_empty_def)
  qed
qed

lemma drain_exceeding_eq:
  "drain_exceeding t q acc = acc @ map data (filter (\<lambda>e. t < insertion e) (pq_drain q))"
proof (induction t q acc rule: drain_exceeding.induct)
  case (1 t q acc)
  show ?case
  proof (cases "q = []")
    case True
    then show ?thesis by (simp add: pq_empty_def)
  next
    case False
    with 1 show ?thesis
      by (subst drain_exceeding.simps, subst pq_drain.simps) (simp add: pq_empty_def)
  qed
qed

lemma scan_less_than_all_eq: "scan_less_than_all t q = (\<forall>e \<in> set q. t < insertion e)"
proof (induction t q rule: scan_less_than_all.induct)
  case (1 t q)
  show ?case
  proof (cases "q = []")
    case True
    then show ?thesis by (simp add: pq_empty_def)
  next
    case False
    note ne = False
    show ?thesis
    proof (cases "insertion (pq_top q) \<le> t")
      case True
      with ne pq_top_in [OF ne] show ?thesis
        by (subst scan_less_than_all.simps) (force simp: pq_empty_def)
    next
      case False
      with 1 ne have "scan_less_than_all t (pq_pop q) = (\<forall>e \<in> set (pq_pop q). t < insertion e)"
        by (simp add: pq_empty_def)
      with False ne set_pq_pop [OF ne] show ?thesis
        by (subst scan_less_than_all.simps) (auto simp: pq_empty_def)
    qed
  qed
qed

lemma remove_expired_pq_eq: "remove_expired_pq now q = filter (\<lambda>e. now < expiration e) q"
proof (induction now q rule: remove_expired_pq.induct)
  case (1 now q)
  show ?case
  proof (cases "\<not> pq_empty q \<and> expiration (pq_top q) \<le> now")
    case True
    then have ne: "q \<noteq> []" and ex: "expiration (pq_top q) \<le> now" by (auto simp: pq_empty_def)
    from 1 True have "remove_expired_pq now (pq_pop q) = filter (\<lambda>e. now < expiration e) (pq_pop q)"
      by simp
    also have "\<dots> = remove1 (pq_top q) (filter (\<lambda>e. now < expiration e) q)"
      by (simp add: pq_pop_def filter_remove1)
    also have "\<dots> = filter (\<lambda>e. now < expiration e) q"
      using ex by (simp add: remove1_idem)
    finally have "remove_expired_pq now (pq_pop q) = filter (\<lambda>e. now < expiration e) q" .
    moreover have "remove_expired_pq now q = remove_expired_pq now (pq_pop q)"
      using True by (subst remove_expired_pq.simps) simp
    ultimately show ?thesis by simp
  next
    case False
    have "\<forall>e \<in> set q. now < expiration e"
    proof
      fix e assume e: "e \<in> set q"
      then have "q \<noteq> []" by auto
      with False have "now < expiration (pq_top q)" by (simp add: pq_empty_def)
      with pq_top_least [OF e] show "now < expiration e" by simp
    qed
    then have "filter (\<lambda>e. now < expiration e) q = q" by simp
    moreover have "remove_expired_pq now q = q"
      using False by (subst remove_expired_pq.simps) auto
    ultimately show ?thesis by simp
  qed
qed

lemma remove_expired_deque_sorted:
  "sorted (map expiration d) \<Longrightarrow> remove_expired_deque now d = filter (\<lambda>e. now < expiration e) d"
proof (induction d)
  case Nil
  show ?case by simp
next
  case (Cons a d)
  show ?case
  proof (cases "expiration a \<le> now")
    case True
    with Cons show ?thesis by simp
  next
    case False
    with Cons.prems have "\<forall>e \<in> set d. now < expiration e" by fastforce
    then have "filter (\<lambda>e. now < expiration e) d = d" by simp
    with False show ?thesis by simp
  qed
qed

lemma remove_expired_deque_idem:
  "remove_expired_deque now (remove_expired_deque now d) = remove_expired_deque now d"
  by (induction d) auto

section \<open>What the operations compute\<close>

lemma fst_get_valid_data: "fst (get_valid_data now s) = map data (pq_drain (live_entries now s))"
  by (simp add: get_valid_data_def Let_def remove_expired_def remove_expired_pq_eq
        drain_valid_eq live_entries_def)

lemma snd_get_valid_data: "snd (get_valid_data now s) = remove_expired now s"
  by (simp add: get_valid_data_def Let_def)

lemma fst_get_data_exceeding:
  "fst (get_data_exceeding now t s) =
     map data (filter (\<lambda>e. t < insertion e) (pq_drain (live_entries now s)))"
  by (simp add: get_data_exceeding_def Let_def remove_expired_def remove_expired_pq_eq
        drain_exceeding_eq live_entries_def)

lemma snd_get_data_exceeding: "snd (get_data_exceeding now t s) = remove_expired now s"
  by (simp add: get_data_exceeding_def Let_def)

lemma pq_remove_expired: "pq (remove_expired now s) = live_entries now s"
  by (simp add: remove_expired_def remove_expired_pq_eq live_entries_def)


lemma length_filter_eq_iff: "length (filter P xs) = length xs \<longleftrightarrow> (\<forall>x \<in> set xs. P x)"
proof (induction xs)
  case Nil
  show ?case by simp
next
  case (Cons a xs)
  have "length (filter P xs) \<noteq> Suc (length xs)"
    by (metis length_filter_le Suc_n_not_le_n)
  with Cons show ?case by auto
qed

section \<open>The arithmetic of insert and the states of a run\<close>

lemma wrap64_in_range: "in_range64 x \<Longrightarrow> wrap64 x = x"
  by (simp add: wrap64_def in_range64_def)

lemma time_point_plus_exact:
  "no_overflow d now \<Longrightarrow> time_point_plus now d = spec_expiration now d"
  by (simp add: no_overflow_def time_point_plus_def spec_expiration_def wrap64_in_range)

lemma pq_insert_data:
  "pq (insert_data now v s) =
     pq s @ [\<lparr>data = v, insertion = now, expiration = time_point_plus now (fixed_duration s)\<rparr>]"
  by (simp add: insert_data_def Let_def pq_push_def)

lemma insertion_order_insert_data:
  "insertion_order (insert_data now v s) =
     insertion_order s @
       [\<lparr>data = v, insertion = now, expiration = time_point_plus now (fixed_duration s)\<rparr>]"
  by (simp add: insert_data_def Let_def)

lemma fixed_duration_insert_data: "fixed_duration (insert_data now v s) = fixed_duration s"
  by (simp add: insert_data_def Let_def)

lemma fixed_duration_remove_expired: "fixed_duration (remove_expired now s) = fixed_duration s"
  by (simp add: remove_expired_def)

lemma step_cases:
  "step now c s = remove_expired now s \<or> (\<exists>v. step now c s = insert_data now v s)"
  by (cases c) (auto simp: snd_get_valid_data snd_get_data_exceeding)

lemma fixed_duration_step: "fixed_duration (step now c s) = fixed_duration s"
  using step_cases [of now c s]
  by (auto simp: fixed_duration_insert_data fixed_duration_remove_expired)

lemma fixed_duration_run: "fixed_duration (run s cs) = fixed_duration s"
  by (induction s cs rule: run.induct) (simp_all add: fixed_duration_step)

lemma filter_remove_expired_deque:
  "filter (\<lambda>e. now < expiration e) (remove_expired_deque now d) =
     filter (\<lambda>e. now < expiration e) d"
  by (induction d) auto

lemma contained_construct: "contained (construct d)"
  by (simp add: contained_def construct_def)

lemma contained_insert_data: "contained s \<Longrightarrow> contained (insert_data now v s)"
  by (simp add: contained_def pq_insert_data insertion_order_insert_data)

lemma contained_remove_expired:
  assumes "contained s"
  shows "contained (remove_expired now s)"
proof -
  let ?live = "\<lambda>e. now < expiration e"
  let ?d = "remove_expired_deque now (insertion_order s)"
  from assms have "filter_mset ?live (mset (pq s)) \<subseteq># filter_mset ?live (mset (insertion_order s))"
    unfolding contained_def by (rule multiset_filter_mono)
  also have "filter_mset ?live (mset (insertion_order s)) = mset (filter ?live ?d)"
    by (simp only: mset_filter filter_remove_expired_deque)
  also have "mset (filter ?live ?d) \<subseteq># mset ?d"
    by (simp only: mset_filter multiset_filter_subset)
  finally have "mset (filter ?live (pq s)) \<subseteq># mset ?d" by (simp only: mset_filter)
  then show ?thesis
    by (simp add: contained_def remove_expired_def remove_expired_pq_eq)
qed

lemma contained_step: "contained s \<Longrightarrow> contained (step now c s)"
  using step_cases [of now c s] by (auto simp: contained_insert_data contained_remove_expired)

lemma contained_run: "contained s \<Longrightarrow> contained (run s cs)"
  by (induction s cs rule: run.induct) (simp_all add: contained_step)

lemma set_remove_expired_deque: "set (remove_expired_deque now d) \<subseteq> set d"
  by (induction d) auto

lemma sorted_remove_expired_deque:
  "sorted (map insertion d) \<Longrightarrow> sorted (map insertion (remove_expired_deque now d))"
  by (induction d) auto

lemma ordered_construct: "ordered clock (construct d)"
  by (simp add: ordered_def construct_def)

lemma ordered_insert_data:
  assumes "ordered clock s" and "clock \<le> now"
  shows "ordered now (insert_data now v s)"
proof -
  from assms have srt: "sorted (map insertion (insertion_order s))"
    and le: "\<forall>e \<in> set (insertion_order s). insertion e \<le> now"
    by (auto simp: ordered_def list_all_iff)
  then show ?thesis
    by (simp add: ordered_def insertion_order_insert_data sorted_append list_all_iff)
qed

lemma ordered_remove_expired:
  assumes "ordered clock s" and "clock \<le> now"
  shows "ordered now (remove_expired now' s)"
proof -
  from assms have srt: "sorted (map insertion (insertion_order s))"
    and le: "\<forall>e \<in> set (insertion_order s). insertion e \<le> now"
    by (auto simp: ordered_def list_all_iff)
  have "sorted (map insertion (remove_expired_deque now' (insertion_order s)))"
    using srt by (rule sorted_remove_expired_deque)
  moreover have "\<forall>e \<in> set (remove_expired_deque now' (insertion_order s)). insertion e \<le> now"
    using le set_remove_expired_deque [of now' "insertion_order s"] by blast
  ultimately show ?thesis
    by (simp add: ordered_def remove_expired_def list_all_iff)
qed

lemma ordered_step: "ordered clock s \<Longrightarrow> clock \<le> now \<Longrightarrow> ordered now (step now c s)"
  using step_cases [of now c s] by (auto simp: ordered_insert_data ordered_remove_expired)

lemma ordered_run:
  "ordered clock s \<Longrightarrow> sorted (map fst cs) \<Longrightarrow> \<forall>t \<in> set (map fst cs). clock \<le> t \<Longrightarrow>
     \<exists>clock'. ordered clock' (run s cs)"
proof (induction cs arbitrary: s clock)
  case Nil
  then show ?case by auto
next
  case (Cons tc cs)
  obtain now c where tc: "tc = (now, c)" by (cases tc)
  from Cons.prems tc have "clock \<le> now" by simp
  with Cons.prems(1) have "ordered now (step now c s)"
    by (rule ordered_step)
  moreover from Cons.prems tc have "sorted (map fst cs)" "\<forall>t \<in> set (map fst cs). now \<le> t"
    by auto
  ultimately have "\<exists>clock'. ordered clock' (run (step now c s) cs)"
    by (rule Cons.IH)
  with tc show ?case by simp
qed

lemma ordered_reachable:
  assumes "sorted (map fst cs)"
  shows "\<exists>clock. ordered clock (run (construct d) cs)"
proof (cases cs)
  case Nil
  then show ?thesis using ordered_construct by auto
next
  case (Cons tc cs')
  have "ordered (fst tc) (construct d)" by (rule ordered_construct)
  moreover have "\<forall>t \<in> set (map fst cs). fst tc \<le> t" using assms Cons by auto
  ultimately show ?thesis using assms ordered_run [of "fst tc" "construct d" cs] by blast
qed

lemma sorted_expiration_if_fixed:
  "sorted (map insertion xs) \<Longrightarrow>
   list_all (\<lambda>e. P e \<and> expiration e = spec_expiration (insertion e) d) xs \<Longrightarrow>
     sorted (map expiration xs)"
  by (induction xs) (auto simp: list_all_iff spec_expiration_def)

lemma consistent_construct: "consistent clock (construct d)"
  by (simp add: consistent_def invariant_def construct_def)

lemma consistent_insert_data:
  assumes "consistent clock s" and "clock \<le> now" and "no_overflow (fixed_duration s) now"
  shows "consistent now (insert_data now v s)"
proof -
  let ?e = "\<lparr>data = v, insertion = now, expiration = time_point_plus now (fixed_duration s)\<rparr>"
  from assms have m: "mset (pq s) = mset (insertion_order s)"
    and srt: "sorted (map insertion (insertion_order s))"
    and all: "\<forall>e \<in> set (insertion_order s).
                 insertion e \<le> clock \<and>
                 expiration e = spec_expiration (insertion e) (fixed_duration s)"
    by (simp_all add: consistent_def invariant_def list_all_iff)
  have p: "pq (insert_data now v s) = pq s @ [?e]" by (rule pq_insert_data)
  have i: "insertion_order (insert_data now v s) = insertion_order s @ [?e]"
    by (rule insertion_order_insert_data)
  have f: "fixed_duration (insert_data now v s) = fixed_duration s"
    by (rule fixed_duration_insert_data)
  have x: "expiration ?e = spec_expiration (insertion ?e) (fixed_duration s)"
    using assms(3) by (simp add: time_point_plus_exact)
  from all assms(2) have le: "\<forall>e \<in> set (insertion_order s). insertion e \<le> now" by fastforce
  have so: "sorted (map insertion (insertion_order s @ [?e]))"
    using srt le by (simp add: sorted_append)
  have al: "\<forall>e \<in> set (insertion_order s @ [?e]).
              insertion e \<le> now \<and> expiration e = spec_expiration (insertion e) (fixed_duration s)"
    using all le x by auto
  have ms: "mset (pq s @ [?e]) = mset (insertion_order s @ [?e])"
    by (simp only: mset_append m)
  show ?thesis
    unfolding consistent_def invariant_def list_all_iff p i f
    using ms so al by (intro conjI)
qed

lemma consistent_remove_expired:
  assumes "consistent clock s" and "clock \<le> now"
  shows "consistent now (remove_expired now' s)"
proof -
  let ?live = "\<lambda>e. now' < expiration e"
  from assms have m: "mset (pq s) = mset (insertion_order s)"
    and srt: "sorted (map insertion (insertion_order s))"
    and all: "list_all (\<lambda>e. insertion e \<le> clock \<and>
                 expiration e = spec_expiration (insertion e) (fixed_duration s))
                (insertion_order s)"
    by (simp_all add: consistent_def invariant_def)
  from srt all have "sorted (map expiration (insertion_order s))"
    by (rule sorted_expiration_if_fixed)
  then have i: "insertion_order (remove_expired now' s) = filter ?live (insertion_order s)"
    by (simp add: remove_expired_def remove_expired_deque_sorted)
  have p: "pq (remove_expired now' s) = filter ?live (pq s)"
    by (simp add: remove_expired_def remove_expired_pq_eq)
  have f: "fixed_duration (remove_expired now' s) = fixed_duration s"
    by (simp add: remove_expired_def)
  have ms: "mset (filter ?live (pq s)) = mset (filter ?live (insertion_order s))"
    by (simp only: mset_filter m)
  have so: "sorted (map insertion (filter ?live (insertion_order s)))"
    using srt by (rule sorted_filter)
  have al: "\<forall>e \<in> set (filter ?live (insertion_order s)).
              insertion e \<le> now \<and> expiration e = spec_expiration (insertion e) (fixed_duration s)"
  proof
    fix e assume "e \<in> set (filter ?live (insertion_order s))"
    then have "e \<in> set (insertion_order s)" by simp
    with all have "insertion e \<le> clock \<and>
        expiration e = spec_expiration (insertion e) (fixed_duration s)"
      by (simp add: list_all_iff)
    with assms(2) show "insertion e \<le> now \<and>
        expiration e = spec_expiration (insertion e) (fixed_duration s)"
      by simp
  qed
  show ?thesis
    unfolding consistent_def invariant_def list_all_iff p i f
    using ms so al by (intro conjI)
qed

lemma consistent_run:
  "consistent clock s \<Longrightarrow> sorted (map fst cs) \<Longrightarrow> \<forall>t \<in> set (map fst cs). clock \<le> t \<Longrightarrow>
   list_all (no_overflow (fixed_duration s)) (insert_times cs) \<Longrightarrow>
     \<exists>clock'. consistent clock' (run s cs)"
proof (induction cs arbitrary: s clock)
  case Nil
  then show ?case by auto
next
  case (Cons tc cs)
  obtain now c where tc: "tc = (now, c)" by (cases tc)
  from Cons.prems tc have le: "clock \<le> now" by simp
  have st: "consistent now (step now c s)"
  proof (cases c)
    case (Insert v)
    with Cons.prems(4) tc have "no_overflow (fixed_duration s) now" by simp
    with Cons.prems(1) le Insert show ?thesis by (simp add: consistent_insert_data)
  next
    case Cleanup
    with Cons.prems(1) le show ?thesis by (simp add: consistent_remove_expired)
  next
    case GetValidData
    with Cons.prems(1) le show ?thesis
      by (simp add: snd_get_valid_data consistent_remove_expired)
  next
    case (GetDataExceeding t)
    with Cons.prems(1) le show ?thesis
      by (simp add: snd_get_data_exceeding consistent_remove_expired)
  qed
  from Cons.prems tc have srt: "sorted (map fst cs)" and ge: "\<forall>t \<in> set (map fst cs). now \<le> t"
    by auto
  from Cons.prems(4) tc have "list_all (no_overflow (fixed_duration s)) (insert_times cs)"
    by (cases c) simp_all
  then have "list_all (no_overflow (fixed_duration (step now c s))) (insert_times cs)"
    by (simp only: fixed_duration_step)
  with st srt ge have "\<exists>clock'. consistent clock' (run (step now c s) cs)"
    by (rule Cons.IH)
  with tc show ?case by simp
qed

lemma consistent_reachable:
  assumes "sorted (map fst cs)" and "list_all (no_overflow d) (insert_times cs)"
  shows "\<exists>clock. consistent clock (run (construct d) cs)"
proof (cases cs)
  case Nil
  then show ?thesis using consistent_construct by auto
next
  case (Cons tc cs')
  have "consistent (fst tc) (construct d)" by (rule consistent_construct)
  moreover have "\<forall>t \<in> set (map fst cs). fst tc \<le> t" using assms(1) Cons by auto
  moreover have "list_all (no_overflow (fixed_duration (construct d))) (insert_times cs)"
    using assms(2) by (simp add: construct_def)
  ultimately show ?thesis
    using assms(1) consistent_run [of "fst tc" "construct d" cs] by blast
qed


lemma fold_insert_data:
  "pq (fold (\<lambda>t. insert_data t v) ts s) =
     pq s @ map (\<lambda>t. \<lparr>data = v, insertion = t,
                       expiration = time_point_plus t (fixed_duration s)\<rparr>) ts \<and>
   fixed_duration (fold (\<lambda>t. insert_data t v) ts s) = fixed_duration s"
  by (induction ts arbitrary: s) (simp_all add: insert_data_def Let_def pq_push_def)

lemma get_most_recent_insert_data: "get_most_recent (insert_data now v s) = Inr v"
  by (simp add: get_most_recent_def insertion_order_insert_data)

section \<open>The claims\<close>



text \<open>
  C2, amended. \<^verbatim>\<open>is_less_than_all\<close> runs no eviction pass: it is true iff every entry
  held in the expiration structure, live or expired and not yet swept, has
  \<open>insertion > t\<close>. Asked right after an eviction pass at \<open>now\<close> it is true iff every
  live entry has \<open>insertion > t\<close>, and on an empty container it is true.
\<close>

theorem is_less_than_all_spec:
  "(is_less_than_all t s \<longleftrightarrow> (\<forall>e \<in> set (pq s). t < insertion e)) \<and>
   (is_less_than_all t (remove_expired now s) \<longleftrightarrow>
      (\<forall>e \<in> set (live_entries now s). t < insertion e)) \<and>
   (pq s = [] \<longrightarrow> is_less_than_all t s)"
  by (simp add: is_less_than_all_def scan_less_than_all_eq pq_remove_expired)

theorem is_less_than_all_spec_witness:
  "is_less_than_all 0 (insert_data 1000000 (10::int) (construct 5)) \<and>
   list_all (\<lambda>e. 0 < insertion e) (pq (insert_data 1000000 (10::int) (construct 5))) \<and>
   \<not> is_less_than_all 1000000 (insert_data 1000000 (10::int) (construct 5)) \<and>
   is_less_than_all 1000000 (remove_expired 7000000 (insert_data 1000000 (10::int) (construct 5))) \<and>
   pq (construct 5 :: int ExpiringDataContainer) = [] \<and>
   is_less_than_all 1000000 (construct 5 :: int ExpiringDataContainer)"
  using is_less_than_all_spec [of 0 "insert_data 1000000 (10::int) (construct 5)" 7000000]
    is_less_than_all_spec [of 1000000 "insert_data 1000000 (10::int) (construct 5)" 7000000]
    is_less_than_all_spec [of 1000000 "construct 5 :: int ExpiringDataContainer" 7000000]
  by (simp add: live_entries_def insert_data_def construct_def pq_push_def Let_def time_point_plus_def wrap64_def)

text \<open>
  C2 as stated fails. A container with a duration of 5 ms receives one insert at the clock
  reading 1000000 (1 ms); at the reading 7000000 that entry (expiration 6000000) is expired
  and not yet swept, so no entry is live and the claim asks for true, but
  \<^verbatim>\<open>is_less_than_all(1000000)\<close> still sees the entry and returns false.
\<close>

theorem is_less_than_all_counterexample:
  "is_less_than_all 1000000 (insert_data 1000000 (10::int) (construct 5)) \<noteq>
     spec_is_less_than_all 7000000 1000000 (insert_data 1000000 (10::int) (construct 5))"
  by (simp add: is_less_than_all_def scan_less_than_all_eq live_entries_def
        spec_is_less_than_all_def insert_data_def construct_def pq_push_def Let_def time_point_plus_def wrap64_def)

text \<open>
  C3, amended. On the state left by an eviction pass at \<open>now\<close>,
  \<^verbatim>\<open>is_less_than_all(t)\<close> is true iff \<^verbatim>\<open>get_data_exceeding(t)\<close> and
  \<^verbatim>\<open>get_valid_data()\<close>, called at \<open>now\<close>, return sequences of the same length. On any
  state, \<^verbatim>\<open>is_less_than_all(t)\<close> being true implies that the lengths are equal.
\<close>

theorem is_less_than_all_lengths:
  "(is_less_than_all t (remove_expired now s) \<longleftrightarrow>
      length (fst (get_data_exceeding now t s)) = length (fst (get_valid_data now s))) \<and>
   (is_less_than_all t s \<longrightarrow>
      length (fst (get_data_exceeding now t s)) = length (fst (get_valid_data now s)))"
proof -
  let ?P = "\<lambda>e. t < insertion e"
  let ?es = "pq_drain (live_entries now s)"
  have len: "length (fst (get_data_exceeding now t s)) = length (fst (get_valid_data now s))
      \<longleftrightarrow> (\<forall>e \<in> set ?es. ?P e)"
    by (simp add: fst_get_data_exceeding fst_get_valid_data length_filter_eq_iff)
  have a: "is_less_than_all t (remove_expired now s) \<longleftrightarrow> (\<forall>e \<in> set ?es. ?P e)"
    by (simp add: is_less_than_all_def scan_less_than_all_eq pq_remove_expired set_pq_drain)
  have b: "is_less_than_all t s \<longrightarrow> (\<forall>e \<in> set ?es. ?P e)"
    by (auto simp: is_less_than_all_def scan_less_than_all_eq set_pq_drain live_entries_def)
  from len a b show ?thesis by blast
qed

theorem is_less_than_all_lengths_witness:
  "is_less_than_all 2000000 (insert_data 3000000 (20::int) (insert_data 1000000 10 (construct 5))) = False \<and>
   is_less_than_all 2000000 (remove_expired 7000000 (insert_data 3000000 (20::int) (insert_data 1000000 10 (construct 5)))) \<and>
   length (fst (get_data_exceeding 7000000 2000000 (insert_data 3000000 (20::int) (insert_data 1000000 10 (construct 5))))) =
   length (fst (get_valid_data 7000000 (insert_data 3000000 (20::int) (insert_data 1000000 10 (construct 5))))) \<and>
   is_less_than_all 0 (insert_data 3000000 (20::int) (insert_data 1000000 10 (construct 5))) \<and>
   length (fst (get_data_exceeding 7000000 0 (insert_data 3000000 (20::int) (insert_data 1000000 10 (construct 5))))) =
   length (fst (get_valid_data 7000000 (insert_data 3000000 (20::int) (insert_data 1000000 10 (construct 5)))))"
  using is_less_than_all_lengths [of 2000000 7000000 "insert_data 3000000 (20::int) (insert_data 1000000 10 (construct 5))"]
    is_less_than_all_lengths [of 0 7000000 "insert_data 3000000 (20::int) (insert_data 1000000 10 (construct 5))"]
  by (simp add: is_less_than_all_def scan_less_than_all_eq pq_remove_expired live_entries_def
        insert_data_def construct_def pq_push_def Let_def time_point_plus_def wrap64_def)

text \<open>
  C3 as stated fails on the same state: at the reading 7000000 both
  \<^verbatim>\<open>get_data_exceeding(1000000)\<close> and \<^verbatim>\<open>get_valid_data()\<close> return the empty sequence,
  while \<^verbatim>\<open>is_less_than_all(1000000)\<close>, which does not evict, returns false.
\<close>

theorem is_less_than_all_lengths_counterexample:
  "\<not> (is_less_than_all 1000000 (insert_data 1000000 (10::int) (construct 5)) \<longleftrightarrow>
      length (fst (get_data_exceeding 7000000 1000000 (insert_data 1000000 (10::int) (construct 5)))) =
      length (fst (get_valid_data 7000000 (insert_data 1000000 (10::int) (construct 5)))))"
  by (simp add: is_less_than_all_def scan_less_than_all_eq fst_get_data_exceeding
        fst_get_valid_data live_entries_def insert_data_def construct_def pq_push_def Let_def time_point_plus_def wrap64_def)






text \<open>
  C6. \<^verbatim>\<open>remove_expired\<close> is idempotent: a second call with the same \<open>now\<close> leaves
  the state of the first, in both structures.
\<close>

theorem remove_expired_idempotent:
  "remove_expired now (remove_expired now s) = remove_expired now s"
  by (simp add: remove_expired_def remove_expired_pq_eq remove_expired_deque_idem)

theorem remove_expired_idempotent_witness:
  "remove_expired 7000000 (remove_expired 7000000 (insert_data 3000000 (20::int) (insert_data 1000000 10 (construct 5)))) =
     remove_expired 7000000 (insert_data 3000000 (20::int) (insert_data 1000000 10 (construct 5))) \<and>
   pq (remove_expired 7000000 (insert_data 3000000 (20::int) (insert_data 1000000 10 (construct 5)))) =
     [\<lparr>data = 20, insertion = 3000000, expiration = 8000000\<rparr>]"
  using remove_expired_idempotent [of 7000000 "insert_data 3000000 (20::int) (insert_data 1000000 10 (construct 5))"]
  by (simp add: pq_remove_expired live_entries_def insert_data_def construct_def pq_push_def Let_def time_point_plus_def wrap64_def)

text \<open>
  C7, amended. \<^verbatim>\<open>insert\<close> at the clock reading \<open>now\<close> adds the entry with
  \<open>insertion = now\<close> and the expiration that the 64-bit computation of
  \<^verbatim>\<open>now + fixed_duration\<close> yields to the expiration structure and to the back of the
  deque; that expiration is the exact sum \<open>now + fixed_ttl\<close> when neither the conversion
  of the duration to nanoseconds nor the sum overflows. Every entry held before is kept
  unchanged, and the stored duration too. The operation has no failing branch: it returns
  a state for every input, holding one entry more, of which \<^verbatim>\<open>get_most_recent\<close>
  returns the inserted value.
\<close>

theorem insert_data_spec:
  "mset (pq (insert_data now v s)) =
     add_mset \<lparr>data = v, insertion = now,
                expiration = time_point_plus now (fixed_duration s)\<rparr> (mset (pq s)) \<and>
   insertion_order (insert_data now v s) =
     insertion_order s @
       [\<lparr>data = v, insertion = now, expiration = time_point_plus now (fixed_duration s)\<rparr>] \<and>
   fixed_duration (insert_data now v s) = fixed_duration s \<and>
   size_container (insert_data now v s) = Suc (size_container s) \<and>
   get_most_recent (insert_data now v s) = Inr v \<and>
   (no_overflow (fixed_duration s) now \<longrightarrow>
      time_point_plus now (fixed_duration s) = spec_expiration now (fixed_duration s))"
  by (simp add: pq_insert_data insertion_order_insert_data fixed_duration_insert_data
        size_container_def pq_size_def get_most_recent_insert_data time_point_plus_exact)

theorem insert_data_spec_witness:
  "no_overflow (fixed_duration (construct 5 :: int ExpiringDataContainer)) 1000000 \<and>
   insertion_order (insert_data 1000000 (10::int) (construct 5)) =
     [\<lparr>data = 10, insertion = 1000000, expiration = 6000000\<rparr>] \<and>
   mset (pq (insert_data 1000000 (10::int) (construct 5))) =
     {#\<lparr>data = 10, insertion = 1000000, expiration = 6000000\<rparr>#} \<and>
   size_container (insert_data 1000000 (10::int) (construct 5)) = 1"
  using insert_data_spec [of 1000000 "10::int" "construct 5"]
  by (simp add: construct_def size_container_def pq_size_def no_overflow_def in_range64_def
        spec_expiration_def)

text \<open>
  C7 as stated fails. With the greatest duration, 9223372036854775807 ms, the conversion
  to nanoseconds wraps around to -1000000: the entry inserted at the clock reading
  1000000000000 is stored with the expiration 999999000000, one millisecond before its
  insertion, and not with the sum that the claim states.
\<close>

theorem insert_data_counterexample:
  "map expiration (insertion_order (insert_data 1000000000000 (10::int) (construct 9223372036854775807))) = [999999000000] \<and>
   spec_expiration 1000000000000 9223372036854775807 \<noteq> 999999000000"
  by (simp add: spec_expiration_def insert_data_def construct_def pq_push_def Let_def time_point_plus_def wrap64_def)

text \<open>
  C8, amended. In every state reached from a fresh container by a run of inserts, cleanup
  rounds and evicting queries with non-decreasing clock readings, every entry of the
  expiration structure is in the deque and the deque is sorted by insertion time. When
  moreover no insert of the run overflows in computing its expiration, every entry of the
  deque is in the expiration structure too: the two structures hold the same entries.
\<close>

theorem invariant_reachable:
  assumes "sorted (map fst calls)"
  shows "mset (pq (run (construct d) calls)) \<subseteq>#
           mset (insertion_order (run (construct d) calls)) \<and>
         sorted (map insertion (insertion_order (run (construct d) calls))) \<and>
         (list_all (no_overflow d) (insert_times calls) \<longrightarrow>
            invariant (run (construct d) calls))"
proof -
  have "contained (run (construct d) calls)"
    using contained_construct by (rule contained_run)
  then have a: "mset (pq (run (construct d) calls)) \<subseteq>#
           mset (insertion_order (run (construct d) calls))"
    by (simp add: contained_def)
  from assms ordered_reachable [of calls d]
  have b: "sorted (map insertion (insertion_order (run (construct d) calls)))"
    by (auto simp: ordered_def)
  have c: "list_all (no_overflow d) (insert_times calls) \<longrightarrow>
            invariant (run (construct d) calls)"
    using assms consistent_reachable [of calls d] by (auto simp: consistent_def)
  show ?thesis by (rule conjI [OF a conjI [OF b c]])
qed

theorem invariant_reachable_witness:
  "sorted (map fst [(1000000::int, Insert (10::int)), (3000000, Insert 20), (7000000, Cleanup)]) \<and>
   list_all (no_overflow 5) (insert_times [(1000000::int, Insert (10::int)), (3000000, Insert 20), (7000000, Cleanup)]) \<and>
   invariant (run (construct 5) [(1000000::int, Insert (10::int)), (3000000, Insert 20), (7000000, Cleanup)])"
proof -
  have h: "sorted (map fst [(1000000::int, Insert (10::int)), (3000000, Insert 20), (7000000, Cleanup)])" by simp
  have n: "list_all (no_overflow 5) (insert_times [(1000000::int, Insert (10::int)), (3000000, Insert 20), (7000000, Cleanup)])"
    by (simp add: no_overflow_def in_range64_def)
  from invariant_reachable [OF h, of 5] h n show ?thesis by simp
qed

text \<open>
  C8 as stated fails. With a duration of 9223371036854 ms, an insert at the clock reading
  1000000000000 stores the expiration 9223372036854000000, and an insert one millisecond
  later overflows: its expiration wraps around to -9223372036854551616. The cleanup round
  at 1000002000000 pops the second entry from the queue; the front of the deque is the
  first entry, which is live, so the deque keeps both.
\<close>

theorem invariant_counterexample:
  "sorted (map fst [(1000000000000::int, Insert (10::int)), (1000001000000, Insert 20), (1000002000000, Cleanup)]) \<and>
   \<not> invariant (run (construct 9223371036854) [(1000000000000::int, Insert (10::int)), (1000001000000, Insert 20), (1000002000000, Cleanup)])"
  by (simp add: invariant_def remove_expired_def remove_expired_pq_eq insert_data_def construct_def pq_push_def Let_def time_point_plus_def wrap64_def)

text \<open>
  C9. \<^verbatim>\<open>size\<close> is the number of entries of the expiration structure as it is: it takes
  no clock reading and returns no new state, and for every \<open>now\<close> it counts the live
  entries and the expired ones not yet swept; an eviction pass lowers it by the number of
  the latter.
\<close>

theorem size_container_spec:
  "size_container s = length (pq s) \<and>
   size_container s = length (live_entries now s) + length (expired_entries now s) \<and>
   size_container s = size_container (remove_expired now s) + length (expired_entries now s)"
proof -
  have "length (filter (\<lambda>e. now < expiration e) (pq s)) +
        length (filter (\<lambda>e. \<not> now < expiration e) (pq s)) = length (pq s)"
    by (rule sum_length_filter_compl)
  then show ?thesis
    by (simp add: size_container_def pq_size_def pq_remove_expired live_entries_def
          expired_entries_def not_less)
qed

theorem size_container_spec_witness:
  "size_container (insert_data 3000000 (20::int) (insert_data 1000000 10 (construct 5))) = 2 \<and>
   length (expired_entries 7000000 (insert_data 3000000 (20::int) (insert_data 1000000 10 (construct 5)))) = 1 \<and>
   size_container (remove_expired 7000000 (insert_data 3000000 (20::int) (insert_data 1000000 10 (construct 5)))) = 1"
  using size_container_spec [of "insert_data 3000000 (20::int) (insert_data 1000000 10 (construct 5))" 7000000]
  by (simp add: expired_entries_def live_entries_def insert_data_def construct_def pq_push_def Let_def time_point_plus_def wrap64_def)

text \<open>
  C10. After \<open>k\<close> inserts of the same value \<open>v\<close> (at the clock readings \<open>ts\<close>, \<open>k\<close>
  their number) into any state, the entries they store all unexpired at \<open>now\<close>, the
  result of \<^verbatim>\<open>get_valid_data\<close> at \<open>now\<close> contains \<open>v\<close> at least \<open>k\<close> times.
\<close>

theorem insert_keeps_duplicates:
  assumes "\<forall>t \<in> set ts. now < time_point_plus t (fixed_duration s)"
  shows "length ts \<le>
           count_list (fst (get_valid_data now (fold (\<lambda>t. insert_data t v) ts s))) v"
proof -
  let ?mk = "\<lambda>t. \<lparr>data = v, insertion = t,
                     expiration = time_point_plus t (fixed_duration s)\<rparr>"
  let ?s' = "fold (\<lambda>t. insert_data t v) ts s"
  let ?live = "\<lambda>e. now < expiration e"
  have "filter ?live (map ?mk ts) = map ?mk ts"
    using assms by (simp add: filter_id_conv)
  then have live: "live_entries now ?s' = live_entries now s @ map ?mk ts"
    by (simp add: live_entries_def fold_insert_data)
  have "count_list (fst (get_valid_data now ?s')) v =
          count (mset (map data (pq_drain (live_entries now ?s')))) v"
    by (simp only: fst_get_valid_data count_mset)
  also have "\<dots> = count (image_mset data (mset (live_entries now ?s'))) v"
    by (simp only: mset_map mset_pq_drain)
  also have "\<dots> = count (image_mset data (mset (live_entries now s))) v +
                   count (mset (map data (map ?mk ts))) v"
    by (simp only: live mset_append image_mset_union plus_multiset.rep_eq mset_map)
  also have "map data (map ?mk ts) = replicate (length ts) v"
    by (simp add: comp_def map_replicate_const)
  also have "count (mset (replicate (length ts) v)) v = length ts"
    by simp
  finally show ?thesis by simp
qed

theorem insert_keeps_duplicates_witness:
  "list_all (\<lambda>t. 7000000 < time_point_plus t
       (fixed_duration (construct 10 :: int ExpiringDataContainer)))
     [1000000, 2000000, 3000000] \<and>
   3 \<le> count_list (fst (get_valid_data 7000000
          (fold (\<lambda>t. insert_data t (42::int)) [1000000, 2000000, 3000000] (construct 10)))) 42"
  using insert_keeps_duplicates
    [of "[1000000, 2000000, 3000000]" 7000000 "construct 10 :: int ExpiringDataContainer" 42]
  by (simp add: construct_def time_point_plus_def wrap64_def)

end
